theory Spec2Isabelle
  imports Main "HOL-Library.Multiset" "HOL-Library.List_Lexorder"
begin

section \<open>Data model (the types of part_000, which App.tsx imports from types)\<close>

text \<open>
  A JavaScript string is a sequence of UTF-16 code units; \<open>length\<close> counts code units.
  A code unit is represented by its numeric value, so that Arabic names and the Unicode
  white space characters are ordinary inhabitants of the type.
\<close>

type_synonym jsstring = "nat list"

text \<open>The code units of an ASCII literal, to write examples readably.\<close>

definition ascii :: "string \<Rightarrow> jsstring" where
  "ascii s = map of_char s"

datatype AttendanceStatus = PRESENT | ABSENT | UNEXPECTED

text \<open>\<open>interface Attendee { name: string; status: AttendanceStatus; originalName?: string }\<close>\<close>

record Attendee =
  name :: jsstring
  status :: AttendanceStatus
  originalName :: "jsstring option"

text \<open>\<open>interface ProcessingResult { present; absent; unexpected }\<close>\<close>

record ProcessingResult =
  present :: "Attendee list"
  absent :: "Attendee list"
  unexpected :: "Attendee list"

text \<open>
  The part of the component state of \<open>App\<close> that the review workflow reads and writes
  (the \<open>useState\<close> cells of App.tsx, lines 24-32). \<open>null\<close> is \<open>None\<close>.
\<close>

record app_state =
  rawResults :: "ProcessingResult option"
  isReviewing :: bool
  finalResults :: "ProcessingResult option"
  selectedNames :: "jsstring set"
  showBulkConfirm :: bool
  pendingStatus :: "AttendanceStatus option"

text \<open>The state of a freshly mounted component (the initial values of the \<open>useState\<close> calls).\<close>

definition initial_state :: app_state where
  "initial_state =
     \<lparr>rawResults = None, isReviewing = False, finalResults = None,
      selectedNames = {}, showBulkConfirm = False, pendingStatus = None\<rparr>"

text \<open>
  An exception that leaves a handler. A handler returns the exception it threw, if any,
  together with the component state after the call; a handler that throws before it
  reaches a state setter leaves the state as it was.
\<close>

datatype js_error = TypeError

type_synonym outcome = "js_error option \<times> app_state"

section \<open>Sorting\<close>

text \<open>
  \<open>const sortFn = (list) => [...list].sort((a, b) => a.name.localeCompare(b.name, 'ar'))\<close>.

  The collation of the \<open>'ar'\<close> locale is not part of the repository. It is a parameter
  \<open>coll\<close>: the collation key of a string in a linear order, \<open>localeCompare\<close> comparing
  two strings by their keys (negative, zero or positive as the first key is less than,
  equal to or greater than the second). Every comparison that is a total preorder has
  such a key, and two strings with the same key compare equal without being the same
  string. \<open>Array.prototype.sort\<close> is stable, and so is \<open>sort_key\<close>: attendees whose names
  compare equal keep their order. The spread copies the list, so the argument is not
  changed.
\<close>

definition sortFn :: "(jsstring \<Rightarrow> 'k::linorder) \<Rightarrow> Attendee list \<Rightarrow> Attendee list" where
  "sortFn coll list = sort_key (\<lambda>a. coll (name a)) list"

text \<open>A bucket is in collation order.\<close>

definition bucket_sorted :: "(jsstring \<Rightarrow> 'k::linorder) \<Rightarrow> Attendee list \<Rightarrow> bool" where
  "bucket_sorted coll list = sorted (map (\<lambda>a. coll (name a)) list)"

definition buckets_sorted :: "(jsstring \<Rightarrow> 'k::linorder) \<Rightarrow> ProcessingResult \<Rightarrow> bool" where
  "buckets_sorted coll r =
     (bucket_sorted coll (present r) \<and> bucket_sorted coll (absent r) \<and>
      bucket_sorted coll (unexpected r))"

section \<open>Roster extractor (part_000, extractNamesFromExcel)\<close>

text \<open>
  The code units that \<open>String.prototype.trim\<close> removes and that \<open>Number\<close> skips around a
  numeral: the WhiteSpace and LineTerminator code points of ECMAScript.
\<close>

definition isWhiteSpace :: "nat \<Rightarrow> bool" where
  "isWhiteSpace c =
     (c = 0x0009 \<or> c = 0x000A \<or> c = 0x000B \<or> c = 0x000C \<or> c = 0x000D \<or> c = 0x0020 \<or>
      c = 0x00A0 \<or> c = 0x1680 \<or> (0x2000 \<le> c \<and> c \<le> 0x200A) \<or> c = 0x2028 \<or>
      c = 0x2029 \<or> c = 0x202F \<or> c = 0x205F \<or> c = 0x3000 \<or> c = 0xFEFF)"

text \<open>\<open>s.trim()\<close>\<close>

definition trim :: "jsstring \<Rightarrow> jsstring" where
  "trim s = rev (dropWhile isWhiteSpace (rev (dropWhile isWhiteSpace s)))"

text \<open>
  Splitting at every code unit that is a separator; between two adjacent separators, and
  before a leading or after a trailing one, the field is empty. The result is never empty.
\<close>

fun split_on :: "(nat \<Rightarrow> bool) \<Rightarrow> jsstring \<Rightarrow> jsstring list" where
  "split_on sep [] = [[]]"
| "split_on sep (c # cs) =
     (if sep c then [] # split_on sep cs
      else (case split_on sep cs of [] \<Rightarrow> [[c]] | f # fs \<Rightarrow> (c # f) # fs))"

text \<open>\<open>s.split(' ')\<close>: the separator is the one code unit U+0020.\<close>

definition split_space :: "jsstring \<Rightarrow> jsstring list" where
  "split_space s = split_on (\<lambda>c. c = 0x20) s"

text \<open>
  \<open>isNaN(Number(s))\<close> for a string: \<open>Number\<close> trims white space, reads the empty string
  as 0, and otherwise reads a StrNumericLiteral of ECMAScript (a signed decimal literal
  with optional fraction and exponent, \<open>Infinity\<close>, or an unsigned binary, octal or
  hexadecimal integer); everything else is \<open>NaN\<close>.
\<close>

definition isDigit :: "nat \<Rightarrow> bool" where
  "isDigit c = (0x30 \<le> c \<and> c \<le> 0x39)"

definition isHexDigit :: "nat \<Rightarrow> bool" where
  "isHexDigit c = (isDigit c \<or> (0x41 \<le> c \<and> c \<le> 0x46) \<or> (0x61 \<le> c \<and> c \<le> 0x66))"

definition isOctalDigit :: "nat \<Rightarrow> bool" where
  "isOctalDigit c = (0x30 \<le> c \<and> c \<le> 0x37)"

definition isBinaryDigit :: "nat \<Rightarrow> bool" where
  "isBinaryDigit c = (c = 0x30 \<or> c = 0x31)"

definition isDecimalDigits :: "jsstring \<Rightarrow> bool" where
  "isDecimalDigits s = (s \<noteq> [] \<and> list_all isDigit s)"

definition isSignedInteger :: "jsstring \<Rightarrow> bool" where
  "isSignedInteger s =
     (case s of
        [] \<Rightarrow> False
      | c # cs \<Rightarrow> if c = 0x2B \<or> c = 0x2D then isDecimalDigits cs else isDecimalDigits s)"

definition isExponentPart :: "jsstring \<Rightarrow> bool" where
  "isExponentPart s =
     (case s of [] \<Rightarrow> False | c # cs \<Rightarrow> (c = 0x65 \<or> c = 0x45) \<and> isSignedInteger cs)"

definition isStrUnsignedDecimalLiteral :: "jsstring \<Rightarrow> bool" where
  "isStrUnsignedDecimalLiteral s =
     (s = ascii ''Infinity'' \<or>
      (let ip = takeWhile isDigit s; r = dropWhile isDigit s
       in case r of
            [] \<Rightarrow> ip \<noteq> []
          | c # r' \<Rightarrow>
              if c = 0x2E
              then (let fp = takeWhile isDigit r'; e = dropWhile isDigit r'
                    in (ip \<noteq> [] \<or> fp \<noteq> []) \<and> (e = [] \<or> isExponentPart e))
              else ip \<noteq> [] \<and> isExponentPart r))"

definition isStrDecimalLiteral :: "jsstring \<Rightarrow> bool" where
  "isStrDecimalLiteral s =
     (case s of
        [] \<Rightarrow> False
      | c # cs \<Rightarrow>
          if c = 0x2B \<or> c = 0x2D then isStrUnsignedDecimalLiteral cs
          else isStrUnsignedDecimalLiteral s)"

definition isNonDecimalIntegerLiteral :: "jsstring \<Rightarrow> bool" where
  "isNonDecimalIntegerLiteral s =
     (case s of
        z # p # ds \<Rightarrow>
          z = 0x30 \<and> ds \<noteq> [] \<and>
          (((p = 0x62 \<or> p = 0x42) \<and> list_all isBinaryDigit ds) \<or>
           ((p = 0x6F \<or> p = 0x4F) \<and> list_all isOctalDigit ds) \<or>
           ((p = 0x78 \<or> p = 0x58) \<and> list_all isHexDigit ds))
      | _ \<Rightarrow> False)"

definition isStrNumericLiteral :: "jsstring \<Rightarrow> bool" where
  "isStrNumericLiteral s = (isStrDecimalLiteral s \<or> isNonDecimalIntegerLiteral s)"

definition Number_isNaN :: "jsstring \<Rightarrow> bool" where
  "Number_isNaN s = (let t = trim s in t \<noteq> [] \<and> \<not> isStrNumericLiteral t)"

text \<open>
  The condition of line 50 of \<open>extractNamesFromExcel\<close>:
  \<open>val && val.length > 5 && val.split(' ').length >= 2 && isNaN(Number(val))\<close>.
\<close>

definition isCandidateVal :: "jsstring \<Rightarrow> bool" where
  "isCandidateVal val =
     (val \<noteq> [] \<and> length val > 5 \<and> length (split_space val) \<ge> 2 \<and> Number_isNaN val)"

text \<open>
  A cell is given by the text that \<open>cell?.toString()\<close> yields, \<open>None\<close> for an empty
  cell (\<open>null\<close> or \<open>undefined\<close>); \<open>val\<close> is that text trimmed (line 48). The cell is
  selected when \<open>val\<close> passes the condition.
\<close>

definition isCandidate :: "jsstring option \<Rightarrow> bool" where
  "isCandidate cell =
     (case map_option trim cell of None \<Rightarrow> False | Some val \<Rightarrow> isCandidateVal val)"

text \<open>
  \<open>extractNamesFromExcel\<close> on the grid of the first sheet (lines 45-55): the selected
  values in reading order, and \<open>Array.from(new Set(names))\<close> keeps the first occurrence of
  each.
\<close>

definition extractNamesFromExcel :: "jsstring option list list \<Rightarrow> jsstring list" where
  "extractNamesFromExcel jsonData =
     (let names = concat (map (\<lambda>row. concat (map (\<lambda>cell.
                     case map_option trim cell of
                       None \<Rightarrow> []
                     | Some val \<Rightarrow> if isCandidateVal val then [val] else []) row)) jsonData)
      in rev (remdups (rev names)))"

text \<open>
  The candidate filter as the specification words it: the tokens of a text are its
  maximal runs of code units that are not white space.
\<close>

definition whitespace_tokens :: "jsstring \<Rightarrow> jsstring list" where
  "whitespace_tokens s = filter (\<lambda>t. t \<noteq> []) (split_on isWhiteSpace s)"

definition spec_candidate :: "jsstring option \<Rightarrow> bool" where
  "spec_candidate cell =
     (case cell of
        None \<Rightarrow> False
      | Some v \<Rightarrow>
          (let t = trim v
           in t \<noteq> [] \<and> length t > 5 \<and> length (whitespace_tokens t) \<ge> 2 \<and>
              Number_isNaN t))"


section \<open>Review operations (App.tsx)\<close>

text \<open>
  The successful end of \<open>runAnalysis\<close> (lines 137-144): the oracle's answer \<open>res\<close> is
  sorted bucket by bucket and stored as the raw result, and review mode is entered.
\<close>

definition runAnalysis_ingest ::
    "(jsstring \<Rightarrow> 'k::linorder) \<Rightarrow> ProcessingResult \<Rightarrow> app_state \<Rightarrow> app_state" where
  "runAnalysis_ingest coll res s =
     s\<lparr>rawResults :=
          Some \<lparr>present = sortFn coll (present res),
                absent = sortFn coll (absent res),
                unexpected = sortFn coll (unexpected res)\<rparr>,
       isReviewing := True\<rparr>"

text \<open>
  \<open>list[index]\<close> for an integer index: the element, or \<open>undefined\<close> (here \<open>None\<close>)
  outside the array.
\<close>

definition array_get :: "'a list \<Rightarrow> int \<Rightarrow> 'a option" where
  "array_get xs index =
     (if 0 \<le> index \<and> index < int (length xs) then Some (xs ! nat index) else None)"

text \<open>\<open>list.filter((_, i) => i !== index)\<close>\<close>

definition filter_index :: "'a list \<Rightarrow> int \<Rightarrow> 'a list" where
  "filter_index xs index = map snd (filter (\<lambda>(i, _). int i \<noteq> index) (enumerate 0 xs))"

text \<open>\<open>s || ""\<close> for an optional string: \<open>undefined\<close> and \<open>""\<close> are both falsy.\<close>

definition or_empty :: "jsstring option \<Rightarrow> jsstring" where
  "or_empty s = (case s of None \<Rightarrow> [] | Some v \<Rightarrow> (if v = [] then [] else v))"

text \<open>
  \<open>rejectMatch\<close> (lines 153-165). Outside the array \<open>match\<close> is \<open>undefined\<close>, and
  reading \<open>match.name\<close> while the argument of \<open>setRawResults\<close> is built throws a
  \<open>TypeError\<close>: the setter is never called.
\<close>

definition rejectMatch :: "(jsstring \<Rightarrow> 'k::linorder) \<Rightarrow> int \<Rightarrow> app_state \<Rightarrow> outcome" where
  "rejectMatch coll index s =
     (case rawResults s of
        None \<Rightarrow> (None, s)
      | Some r \<Rightarrow>
          (let match = array_get (present r) index;
               newPresent = filter_index (present r) index
           in case match of
                None \<Rightarrow> (Some TypeError, s)
              | Some m \<Rightarrow>
                  (None,
                   s\<lparr>rawResults := Some (r
                      \<lparr>present := newPresent,
                       absent := sortFn coll (absent r @
                         [\<lparr>name = name m, status = ABSENT, originalName = None\<rparr>]),
                       unexpected := sortFn coll (unexpected r @
                         [\<lparr>name = or_empty (originalName m), status = UNEXPECTED,
                           originalName = None\<rparr>])\<rparr>)\<rparr>)))"

text \<open>\<open>finalizeReport\<close> (lines 167-171).\<close>

definition finalizeReport :: "app_state \<Rightarrow> outcome" where
  "finalizeReport s =
     (case rawResults s of
        None \<Rightarrow> (None, s)
      | Some r \<Rightarrow> (None, s\<lparr>finalResults := Some r, isReviewing := False\<rparr>))"

text \<open>\<open>resetApp\<close> (lines 35-53); \<open>confirmed\<close> is the answer of \<open>window.confirm\<close>.\<close>

definition resetApp :: "bool \<Rightarrow> app_state \<Rightarrow> app_state" where
  "resetApp confirmed s =
     (if confirmed
      then s\<lparr>isReviewing := False, rawResults := None, finalResults := None,
             selectedNames := {}, showBulkConfirm := False, pendingStatus := None\<rparr>
      else s)"

text \<open>\<open>toggleSelection\<close> (lines 187-192).\<close>

definition toggleSelection :: "jsstring \<Rightarrow> app_state \<Rightarrow> app_state" where
  "toggleSelection n s =
     s\<lparr>selectedNames :=
         (if n \<in> selectedNames s then selectedNames s - {n} else insert n (selectedNames s))\<rparr>"

text \<open>\<open>initiateBulkChange\<close> (lines 194-197).\<close>

definition initiateBulkChange :: "AttendanceStatus \<Rightarrow> app_state \<Rightarrow> app_state" where
  "initiateBulkChange st s = s\<lparr>pendingStatus := Some st, showBulkConfirm := True\<rparr>"

text \<open>
  The body of the \<open>forEach\<close> in \<open>handleBulkStatusChange\<close> (lines 209-213): the attendee is
  pushed onto the bucket its \<open>status\<close> field names.
\<close>

definition push_by_status :: "Attendee \<Rightarrow> ProcessingResult \<Rightarrow> ProcessingResult" where
  "push_by_status a nextResults =
     (if status a = PRESENT then nextResults\<lparr>present := present nextResults @ [a]\<rparr>
      else if status a = ABSENT then nextResults\<lparr>absent := absent nextResults @ [a]\<rparr>
      else nextResults\<lparr>unexpected := unexpected nextResults @ [a]\<rparr>)"

text \<open>\<open>handleBulkStatusChange\<close> (lines 199-223).\<close>

definition handleBulkStatusChange :: "(jsstring \<Rightarrow> 'k::linorder) \<Rightarrow> app_state \<Rightarrow> outcome" where
  "handleBulkStatusChange coll s =
     (case finalResults s of
        None \<Rightarrow> (None, s)
      | Some r \<Rightarrow>
          (case pendingStatus s of
             None \<Rightarrow> (None, s)
           | Some st \<Rightarrow>
               (let all = present r @ absent r @ unexpected r;
                    moved = filter (\<lambda>a. name a \<in> selectedNames s) all;
                    remaining = filter (\<lambda>a. name a \<notin> selectedNames s) all;
                    nextResults =
                      fold push_by_status (remaining @ map (\<lambda>m. m\<lparr>status := st\<rparr>) moved)
                        \<lparr>present = [], absent = [], unexpected = []\<rparr>
                in (None,
                    s\<lparr>finalResults :=
                        Some \<lparr>present = sortFn coll (present nextResults),
                              absent = sortFn coll (absent nextResults),
                              unexpected = sortFn coll (unexpected nextResults)\<rparr>,
                      selectedNames := {},
                      showBulkConfirm := False,
                      pendingStatus := None\<rparr>))))"

section \<open>Notions used to state the properties\<close>

text \<open>All attendees of a classification, bucket after bucket.\<close>

definition all_attendees :: "ProcessingResult \<Rightarrow> Attendee list" where
  "all_attendees r = present r @ absent r @ unexpected r"

text \<open>The bucket that belongs to a status.\<close>

fun bucket :: "AttendanceStatus \<Rightarrow> ProcessingResult \<Rightarrow> Attendee list" where
  "bucket PRESENT r = present r"
| "bucket ABSENT r = absent r"
| "bucket UNEXPECTED r = unexpected r"

text \<open>No name occurs twice, neither inside a bucket nor in two buckets.\<close>

definition names_distinct :: "ProcessingResult \<Rightarrow> bool" where
  "names_distinct r = distinct (map name (all_attendees r))"

text \<open>
  The list that \<open>handleBulkStatusChange\<close> distributes over the buckets: the attendees
  that are not selected, then the selected ones with their status overwritten.
\<close>

definition redistributed :: "jsstring set \<Rightarrow> AttendanceStatus \<Rightarrow> ProcessingResult \<Rightarrow> Attendee list" where
  "redistributed sel st r =
     filter (\<lambda>a. name a \<notin> sel) (all_attendees r) @
     map (\<lambda>m. m\<lparr>status := st\<rparr>) (filter (\<lambda>a. name a \<in> sel) (all_attendees r))"

section \<open>The states of the component\<close>

text \<open>
  The states that the component can be in: the initial state, and every state that one of
  the handlers produces from such a state. The handlers are those of App.tsx that write
  the review state; the clearing of the selection (line 468) and the dismissal of the
  confirmation dialog (line 495) are inline in the markup.
\<close>

inductive reachable :: "(jsstring \<Rightarrow> 'k::linorder) \<Rightarrow> app_state \<Rightarrow> bool"
  for coll :: "jsstring \<Rightarrow> 'k::linorder" where
  mount: "reachable coll initial_state"
| ingest: "reachable coll s \<Longrightarrow> reachable coll (runAnalysis_ingest coll res s)"
| reject: "reachable coll s \<Longrightarrow> reachable coll (snd (rejectMatch coll i s))"
| finalize: "reachable coll s \<Longrightarrow> reachable coll (snd (finalizeReport s))"
| toggle: "reachable coll s \<Longrightarrow> reachable coll (toggleSelection n s)"
| clear: "reachable coll s \<Longrightarrow> reachable coll (s\<lparr>selectedNames := {}\<rparr>)"
| initiate: "reachable coll s \<Longrightarrow> reachable coll (initiateBulkChange st s)"
| cancel: "reachable coll s \<Longrightarrow> reachable coll (s\<lparr>showBulkConfirm := False\<rparr>)"
| bulk: "reachable coll s \<Longrightarrow> reachable coll (snd (handleBulkStatusChange coll s))"
| reset: "reachable coll s \<Longrightarrow> reachable coll (resetApp confirmed s)"

text \<open>A classification that may be absent has its buckets in collation order.\<close>

definition results_sorted :: "(jsstring \<Rightarrow> 'k::linorder) \<Rightarrow> ProcessingResult option \<Rightarrow> bool" where
  "results_sorted coll res = (case res of None \<Rightarrow> True | Some r \<Rightarrow> buckets_sorted coll r)"

section \<open>Example data\<close>

text \<open>
  A collation for the examples: strings compared code unit by code unit.
\<close>

definition by_code_units :: "jsstring \<Rightarrow> jsstring" where
  "by_code_units s = s"

text \<open>
  The scenario of the specification: the oracle reports A and B present, C absent and D
  unexpected. \<open>ex_review\<close> is the state after the ingest, \<open>ex_staged\<close> the state after
  finalizing, selecting B and D and staging a move to Absent.
\<close>

definition ex_oracle :: ProcessingResult where
  "ex_oracle =
     \<lparr>present = [\<lparr>name = ascii ''B'', status = PRESENT, originalName = Some (ascii ''B'')\<rparr>,
                 \<lparr>name = ascii ''A'', status = PRESENT, originalName = Some (ascii ''A-zoom'')\<rparr>],
      absent = [\<lparr>name = ascii ''C'', status = ABSENT, originalName = None\<rparr>],
      unexpected = [\<lparr>name = ascii ''D'', status = UNEXPECTED, originalName = None\<rparr>]\<rparr>"

definition ex_sorted :: ProcessingResult where
  "ex_sorted =
     \<lparr>present = [\<lparr>name = ascii ''A'', status = PRESENT, originalName = Some (ascii ''A-zoom'')\<rparr>,
                 \<lparr>name = ascii ''B'', status = PRESENT, originalName = Some (ascii ''B'')\<rparr>],
      absent = [\<lparr>name = ascii ''C'', status = ABSENT, originalName = None\<rparr>],
      unexpected = [\<lparr>name = ascii ''D'', status = UNEXPECTED, originalName = None\<rparr>]\<rparr>"

definition ex_review :: app_state where
  "ex_review = runAnalysis_ingest by_code_units ex_oracle initial_state"

definition ex_staged :: app_state where
  "ex_staged =
     initiateBulkChange ABSENT
       (toggleSelection (ascii ''D'')
          (toggleSelection (ascii ''B'') (snd (finalizeReport ex_review))))"

text \<open>A match of a roster name with the identical name seen in the session.\<close>

definition ex_same :: ProcessingResult where
  "ex_same =
     \<lparr>present = [\<lparr>name = ascii ''Ali Hassan'', status = PRESENT,
                  originalName = Some (ascii ''Ali Hassan'')\<rparr>],
      absent = [], unexpected = []\<rparr>"

section \<open>Helper lemmas\<close>

lemma filter_index_in_range:
  "i < length xs \<Longrightarrow> filter_index xs (int i) = take i xs @ drop (Suc i) xs"
proof -
  have gen: "\<And>n. i < length xs \<Longrightarrow>
      map snd (filter (\<lambda>(j, _). int j \<noteq> int (n + i)) (enumerate n xs))
        = take i xs @ drop (Suc i) xs"
  proof (induction xs arbitrary: i)
    case Nil
    then show ?case by simp
  next
    case (Cons x xs)
    show ?case
    proof (cases i)
      case 0
      have "\<forall>p \<in> set (enumerate (Suc n) xs). fst p \<noteq> n"
        by (auto simp: in_set_enumerate_eq)
      then have "filter (\<lambda>(j, _). int j \<noteq> int n) (enumerate (Suc n) xs) = enumerate (Suc n) xs"
        by (intro filter_True) auto
      with 0 show ?thesis by simp
    next
      case (Suc k)
      with Cons.prems have k: "k < length xs" by simp
      from Cons.IH [OF k, of "Suc n"] Suc show ?thesis by simp
    qed
  qed
  assume "i < length xs"
  from gen [OF this, of 0] show ?thesis by (simp add: filter_index_def)
qed

lemma mset_sortFn: "mset (sortFn coll xs) = mset xs"
  by (simp add: sortFn_def)

lemma bucket_sorted_sortFn: "bucket_sorted coll (sortFn coll xs)"
  by (simp add: bucket_sorted_def sortFn_def)

lemma rejectMatch_Some:
  assumes "rawResults s = Some r" and "i < length (present r)"
  shows "rejectMatch coll (int i) s =
    (None, s\<lparr>rawResults := Some
       \<lparr>present = take i (present r) @ drop (Suc i) (present r),
        absent = sortFn coll (absent r @
          [\<lparr>name = name (present r ! i), status = ABSENT, originalName = None\<rparr>]),
        unexpected = sortFn coll (unexpected r @
          [\<lparr>name = or_empty (originalName (present r ! i)), status = UNEXPECTED,
            originalName = None\<rparr>])\<rparr>\<rparr>)"
  using assms
  by (simp add: rejectMatch_def array_get_def filter_index_in_range)

lemma fold_push_by_status:
  "fold push_by_status xs r0 =
     \<lparr>present = present r0 @ filter (\<lambda>a. status a = PRESENT) xs,
      absent = absent r0 @ filter (\<lambda>a. status a = ABSENT) xs,
      unexpected = unexpected r0 @ filter (\<lambda>a. status a = UNEXPECTED) xs\<rparr>"
proof (induction xs arbitrary: r0)
  case Nil
  show ?case by simp
next
  case (Cons a xs)
  have "fold push_by_status (a # xs) r0 = fold push_by_status xs (push_by_status a r0)"
    by simp
  also have "\<dots> =
     \<lparr>present = present (push_by_status a r0) @ filter (\<lambda>a. status a = PRESENT) xs,
      absent = absent (push_by_status a r0) @ filter (\<lambda>a. status a = ABSENT) xs,
      unexpected = unexpected (push_by_status a r0) @ filter (\<lambda>a. status a = UNEXPECTED) xs\<rparr>"
    by (rule Cons.IH)
  also have "\<dots> =
     \<lparr>present = present r0 @ filter (\<lambda>a. status a = PRESENT) (a # xs),
      absent = absent r0 @ filter (\<lambda>a. status a = ABSENT) (a # xs),
      unexpected = unexpected r0 @ filter (\<lambda>a. status a = UNEXPECTED) (a # xs)\<rparr>"
    by (cases "status a") (simp_all add: push_by_status_def)
  finally show ?case .
qed

lemma handleBulkStatusChange_Some:
  assumes "finalResults s = Some r" and "pendingStatus s = Some st"
  shows "handleBulkStatusChange coll s =
    (None,
     s\<lparr>finalResults := Some
         \<lparr>present = sortFn coll (filter (\<lambda>a. status a = PRESENT)
                      (redistributed (selectedNames s) st r)),
          absent = sortFn coll (filter (\<lambda>a. status a = ABSENT)
                      (redistributed (selectedNames s) st r)),
          unexpected = sortFn coll (filter (\<lambda>a. status a = UNEXPECTED)
                      (redistributed (selectedNames s) st r))\<rparr>,
       selectedNames := {}, showBulkConfirm := False, pendingStatus := None\<rparr>)"
  using assms
  by (simp add: handleBulkStatusChange_def fold_push_by_status redistributed_def
      all_attendees_def Let_def)

lemma mset_filter_status:
  "mset (filter (\<lambda>a. status a = PRESENT) xs) + mset (filter (\<lambda>a. status a = ABSENT) xs) +
   mset (filter (\<lambda>a. status a = UNEXPECTED) xs) = mset xs"
proof (induction xs)
  case Nil
  show ?case by simp
next
  case (Cons a xs)
  then show ?case by (cases "status a") simp_all
qed


lemma mset_all_attendees_sorted:
  "mset (all_attendees \<lparr>present = sortFn coll (filter (\<lambda>a. status a = PRESENT) xs),
                          absent = sortFn coll (filter (\<lambda>a. status a = ABSENT) xs),
                          unexpected = sortFn coll (filter (\<lambda>a. status a = UNEXPECTED) xs)\<rparr>)
   = mset xs"
  using mset_filter_status [of xs] by (simp add: all_attendees_def mset_sortFn add.assoc)

lemma selected_in_bucket:
  "filter (\<lambda>a. name a \<in> sel)
     (filter (\<lambda>a. status a = t)
        (filter (\<lambda>a. name a \<notin> sel) xs @
         map (\<lambda>m. m\<lparr>status := st\<rparr>) (filter (\<lambda>a. name a \<in> sel) xs)))
   = (if t = st then map (\<lambda>m. m\<lparr>status := st\<rparr>) (filter (\<lambda>a. name a \<in> sel) xs) else [])"
  by (induction xs) auto

lemma unselected_kept:
  "filter (\<lambda>a. name a \<notin> sel)
     (filter (\<lambda>a. name a \<notin> sel) xs @
      map (\<lambda>m. m\<lparr>status := st\<rparr>) (filter (\<lambda>a. name a \<in> sel) xs))
   = filter (\<lambda>a. name a \<notin> sel) xs"
  by (induction xs) auto

lemma redistributed_names:
  "mset (map (\<lambda>a. (name a, originalName a)) (redistributed sel st r))
   = mset (map (\<lambda>a. (name a, originalName a)) (all_attendees r))"
proof -
  have "\<And>xs. mset (map (\<lambda>a. (name a, originalName a))
         (filter (\<lambda>a. name a \<notin> sel) xs @
          map (\<lambda>m. m\<lparr>status := st\<rparr>) (filter (\<lambda>a. name a \<in> sel) xs)))
       = mset (map (\<lambda>a. (name a, originalName a)) xs)"
    subgoal for xs by (induction xs) auto
    done
  then show ?thesis by (simp add: redistributed_def)
qed

lemma length_redistributed: "length (redistributed sel st r) = length (all_attendees r)"
  using sum_length_filter_compl [of "\<lambda>a. name a \<in> sel" "all_attendees r"]
  by (simp add: redistributed_def)

lemma bucket_after_bulk:
  "mset (bucket t \<lparr>present = sortFn coll (filter (\<lambda>a. status a = PRESENT) xs),
                    absent = sortFn coll (filter (\<lambda>a. status a = ABSENT) xs),
                    unexpected = sortFn coll (filter (\<lambda>a. status a = UNEXPECTED) xs)\<rparr>)
   = mset (filter (\<lambda>a. status a = t) xs)"
  by (cases t) (simp_all add: mset_sortFn)

lemma bucket_sorted_remove_nth:
  assumes "bucket_sorted coll xs" and "i < length xs"
  shows "bucket_sorted coll (take i xs @ drop (Suc i) xs)"
proof -
  have "xs = take i xs @ xs ! i # drop (Suc i) xs"
    using assms(2) by (rule id_take_nth_drop)
  then have "sorted (map (\<lambda>a. coll (name a)) (take i xs @ xs ! i # drop (Suc i) xs))"
    using assms(1) by (simp add: bucket_sorted_def)
  then show ?thesis
    by (simp add: bucket_sorted_def sorted_append)
qed

lemma rejectMatch_sorted:
  assumes "results_sorted coll (rawResults s)"
  shows "results_sorted coll (rawResults (snd (rejectMatch coll i s)))"
proof (cases "rawResults s")
  case None
  then show ?thesis by (simp add: rejectMatch_def results_sorted_def)
next
  case (Some r)
  with assms have r: "buckets_sorted coll r" by (simp add: results_sorted_def)
  show ?thesis
  proof (cases "0 \<le> i \<and> i < int (length (present r))")
    case False
    then have "rejectMatch coll i s = (Some TypeError, s)"
      using Some by (auto simp: rejectMatch_def array_get_def)
    with assms show ?thesis by simp
  next
    case True
    then have n: "nat i < length (present r)" and i: "i = int (nat i)" by auto
    from r have "bucket_sorted coll (take (nat i) (present r) @ drop (Suc (nat i)) (present r))"
      using n by (simp add: buckets_sorted_def bucket_sorted_remove_nth)
    then show ?thesis
      using rejectMatch_Some [OF Some n, of coll] i
      by (simp add: results_sorted_def buckets_sorted_def bucket_sorted_sortFn)
  qed
qed

lemma handleBulkStatusChange_sorted:
  assumes "results_sorted coll (finalResults s)"
  shows "results_sorted coll (finalResults (snd (handleBulkStatusChange coll s)))"
proof (cases "finalResults s")
  case None
  then show ?thesis by (simp add: handleBulkStatusChange_def results_sorted_def)
next
  case (Some r)
  show ?thesis
  proof (cases "pendingStatus s")
    case None
    with Some assms show ?thesis by (simp add: handleBulkStatusChange_def)
  next
    case (Some st)
    from handleBulkStatusChange_Some [OF \<open>finalResults s = Some r\<close> Some, of coll]
    show ?thesis
      by (simp add: results_sorted_def buckets_sorted_def bucket_sorted_sortFn)
  qed
qed

lemma reachable_sorted:
  "reachable coll s \<Longrightarrow>
     results_sorted coll (rawResults s) \<and> results_sorted coll (finalResults s)"
proof (induction rule: reachable.induct)
  case mount
  show ?case by (simp add: initial_state_def results_sorted_def)
next
  case (ingest s res)
  then show ?case
    by (simp add: runAnalysis_ingest_def results_sorted_def buckets_sorted_def
        bucket_sorted_sortFn)
next
  case (reject s i)
  then have "results_sorted coll (rawResults (snd (rejectMatch coll i s)))"
    by (simp add: rejectMatch_sorted)
  moreover have "finalResults (snd (rejectMatch coll i s)) = finalResults s"
    by (simp add: rejectMatch_def Let_def split: option.splits)
  ultimately show ?case using reject by simp
next
  case (finalize s)
  then show ?case by (auto simp: finalizeReport_def results_sorted_def split: option.splits)
next
  case (toggle s n)
  then show ?case by (simp add: toggleSelection_def)
next
  case (clear s)
  then show ?case by simp
next
  case (initiate s st)
  then show ?case by (simp add: initiateBulkChange_def)
next
  case (cancel s)
  then show ?case by simp
next
  case (bulk s)
  then have "results_sorted coll (finalResults (snd (handleBulkStatusChange coll s)))"
    by (simp add: handleBulkStatusChange_sorted)
  moreover have "rawResults (snd (handleBulkStatusChange coll s)) = rawResults s"
    by (simp add: handleBulkStatusChange_def Let_def split: option.splits)
  ultimately show ?case using bulk by simp
next
  case (reset s confirmed)
  then show ?case by (simp add: resetApp_def results_sorted_def)
qed

lemma names_after_ingest:
  "mset (map name (all_attendees \<lparr>present = sortFn coll ps, absent = sortFn coll as,
                                 unexpected = sortFn coll us\<rparr>))
   = mset (map name (ps @ as @ us))"
  by (simp add: all_attendees_def mset_sortFn)

lemma names_after_reject:
  assumes "i < length (present r)"
  shows "mset (map name (all_attendees
           \<lparr>present = take i (present r) @ drop (Suc i) (present r),
            absent = sortFn coll (absent r @
              [\<lparr>name = name (present r ! i), status = ABSENT, originalName = None\<rparr>]),
            unexpected = sortFn coll (unexpected r @
              [\<lparr>name = zoom, status = UNEXPECTED, originalName = None\<rparr>])\<rparr>))
         = mset (zoom # map name (all_attendees r))"
proof -
  have "present r = take i (present r) @ present r ! i # drop (Suc i) (present r)"
    using assms by (rule id_take_nth_drop)
  then have "mset (map name (present r)) =
      mset (map name (take i (present r) @ present r ! i # drop (Suc i) (present r)))"
    by simp
  then show ?thesis
    by (simp add: all_attendees_def mset_sortFn)
qed

lemma names_after_bulk:
  "mset (map name (all_attendees
     \<lparr>present = sortFn coll (filter (\<lambda>a. status a = PRESENT) (redistributed sel st r)),
      absent = sortFn coll (filter (\<lambda>a. status a = ABSENT) (redistributed sel st r)),
      unexpected = sortFn coll (filter (\<lambda>a. status a = UNEXPECTED) (redistributed sel st r))\<rparr>))
   = mset (map name (all_attendees r))"
proof -
  have "mset (map name (all_attendees
     \<lparr>present = sortFn coll (filter (\<lambda>a. status a = PRESENT) (redistributed sel st r)),
      absent = sortFn coll (filter (\<lambda>a. status a = ABSENT) (redistributed sel st r)),
      unexpected = sortFn coll (filter (\<lambda>a. status a = UNEXPECTED) (redistributed sel st r))\<rparr>))
    = mset (map name (redistributed sel st r))"
    using mset_all_attendees_sorted [of coll "redistributed sel st r"] by (simp only: mset_map)
  also have "\<dots> = image_mset fst (mset (map (\<lambda>a. (name a, originalName a)) (redistributed sel st r)))"
    by (simp add: image_mset.compositionality comp_def)
  also have "\<dots> = image_mset fst (mset (map (\<lambda>a. (name a, originalName a)) (all_attendees r)))"
    by (simp only: redistributed_names)
  also have "\<dots> = mset (map name (all_attendees r))"
    by (simp add: image_mset.compositionality comp_def)
  finally show ?thesis .
qed

lemma ex_review_eq:
  "ex_review = \<lparr>rawResults = Some ex_sorted, isReviewing = True, finalResults = None,
      selectedNames = {}, showBulkConfirm = False, pendingStatus = None\<rparr>"
  by (simp add: ex_review_def runAnalysis_ingest_def ex_oracle_def ex_sorted_def sortFn_def
      initial_state_def by_code_units_def ascii_def)

lemma ex_staged_eq:
  "ex_staged = \<lparr>rawResults = Some ex_sorted, isReviewing = False, finalResults = Some ex_sorted,
      selectedNames = {ascii ''B'', ascii ''D''}, showBulkConfirm = True,
      pendingStatus = Some ABSENT\<rparr>"
  by (auto simp add: ex_staged_def ex_review_eq finalizeReport_def toggleSelection_def
      initiateBulkChange_def ascii_def)

lemma ex_bulk:
  "handleBulkStatusChange by_code_units ex_staged =
    (None,
     \<lparr>rawResults = Some ex_sorted, isReviewing = False,
      finalResults = Some
        \<lparr>present = [\<lparr>name = ascii ''A'', status = PRESENT,
                     originalName = Some (ascii ''A-zoom'')\<rparr>],
         absent = [\<lparr>name = ascii ''B'', status = ABSENT, originalName = Some (ascii ''B'')\<rparr>,
                   \<lparr>name = ascii ''C'', status = ABSENT, originalName = None\<rparr>,
                   \<lparr>name = ascii ''D'', status = ABSENT, originalName = None\<rparr>],
         unexpected = []\<rparr>,
      selectedNames = {}, showBulkConfirm = False, pendingStatus = None\<rparr>)"
  by (simp add: ex_staged_eq handleBulkStatusChange_def ex_sorted_def push_by_status_def
      sortFn_def by_code_units_def ascii_def)

lemma ex_staged_reachable: "reachable by_code_units ex_staged"
  unfolding ex_staged_def ex_review_def by (intro reachable.intros)

lemma split_on_not_Nil: "split_on sep s \<noteq> []"
  by (induction s) (auto split: list.splits)

lemma length_split_on: "length (split_on sep s) = Suc (length (filter sep s))"
proof (induction s)
  case Nil
  show ?case by simp
next
  case (Cons c cs)
  then show ?case
    using split_on_not_Nil [of sep cs] by (cases "split_on sep cs") auto
qed

lemma split_space_two_fields: "2 \<le> length (split_space s) \<longleftrightarrow> 0x20 \<in> set s"
proof -
  have "0 < length (filter (\<lambda>c. c = 0x20) s) \<longleftrightarrow> 0x20 \<in> set s"
    by (auto simp: filter_empty_conv)
  then show ?thesis
    by (simp add: split_space_def length_split_on Suc_le_eq)
qed

lemma concat_split_on: "concat (split_on sep s) = filter (\<lambda>c. \<not> sep c) s"
proof (induction s)
  case Nil
  show ?case by simp
next
  case (Cons c cs)
  then show ?case
    using split_on_not_Nil [of sep cs] by (cases "split_on sep cs") auto
qed

lemma split_on_append:
  "sep w \<Longrightarrow> split_on sep (a @ w # b) = split_on sep a @ split_on sep b"
proof (induction a)
  case Nil
  then show ?case by simp
next
  case (Cons c a)
  then show ?case
    using split_on_not_Nil [of sep a] by (cases "split_on sep a") auto
qed

lemma whitespace_tokens_not_Nil:
  assumes "c \<in> set s" and "\<not> isWhiteSpace c"
  shows "whitespace_tokens s \<noteq> []"
proof
  assume "whitespace_tokens s = []"
  then have "\<forall>t \<in> set (split_on isWhiteSpace s). t = []"
    by (simp add: whitespace_tokens_def filter_empty_conv)
  then have "concat (split_on isWhiteSpace s) = []"
    by simp
  then have "filter (\<lambda>c. \<not> isWhiteSpace c) s = []"
    by (simp only: concat_split_on)
  with assms show False
    by (simp add: filter_empty_conv)
qed

lemma whitespace_tokens_append:
  "isWhiteSpace w \<Longrightarrow>
     whitespace_tokens (a @ w # b) = whitespace_tokens a @ whitespace_tokens b"
  by (simp add: whitespace_tokens_def split_on_append)

lemma trim_last: "trim s \<noteq> [] \<Longrightarrow> \<not> isWhiteSpace (last (trim s))"
proof -
  assume ne: "trim s \<noteq> []"
  let ?d = "dropWhile isWhiteSpace (rev (dropWhile isWhiteSpace s))"
  from ne have d: "?d \<noteq> []" by (simp add: trim_def)
  then have "\<not> isWhiteSpace (hd ?d)" by (rule hd_dropWhile)
  moreover have "last (trim s) = hd ?d"
    using d by (simp add: trim_def last_rev)
  ultimately show ?thesis by simp
qed

lemma trim_hd: "trim s \<noteq> [] \<Longrightarrow> \<not> isWhiteSpace (hd (trim s))"
proof -
  assume ne: "trim s \<noteq> []"
  let ?u = "dropWhile isWhiteSpace s"
  let ?d = "dropWhile isWhiteSpace (rev ?u)"
  have "rev ?d @ rev (takeWhile isWhiteSpace (rev ?u)) =
      rev (takeWhile isWhiteSpace (rev ?u) @ ?d)"
    by (simp only: rev_append)
  also have "\<dots> = rev (rev ?u)"
    by (simp only: takeWhile_dropWhile_id)
  also have "\<dots> = ?u"
    by (simp only: rev_rev_ident)
  finally have u: "?u = trim s @ rev (takeWhile isWhiteSpace (rev ?u))"
    unfolding trim_def by (rule sym)
  with ne have "hd ?u = hd (trim s)" by (metis hd_append2)
  moreover from u ne have "?u \<noteq> []" by (metis append_is_Nil_conv)
  then have "\<not> isWhiteSpace (hd ?u)" by (rule hd_dropWhile)
  ultimately show ?thesis by simp
qed

lemma trim_fixed:
  assumes "s \<noteq> []" and "\<not> isWhiteSpace (hd s)" and "\<not> isWhiteSpace (last s)"
  shows "trim s = s"
proof -
  from assms(1,2) have "dropWhile isWhiteSpace s = s"
    by (cases s) simp_all
  moreover from assms(1,3) have "dropWhile isWhiteSpace (rev s) = rev s"
    by (cases "rev s") (simp_all add: hd_rev [symmetric])
  ultimately show ?thesis by (simp add: trim_def)
qed

lemma trim_idem: "trim (trim s) = trim s"
proof (cases "trim s = []")
  case True
  have "trim [] = []" by (simp add: trim_def)
  with True show ?thesis by simp
next
  case False
  then show ?thesis by (intro trim_fixed trim_hd trim_last)
qed

lemma space_gives_two_tokens:
  assumes "0x20 \<in> set (trim v)"
  shows "2 \<le> length (whitespace_tokens (trim v))"
proof -
  from assms obtain a b where t: "trim v = a @ 0x20 # b"
    by (auto simp: in_set_conv_decomp)
  then have ne: "trim v \<noteq> []" by simp
  have ws: "isWhiteSpace 0x20" by (simp add: isWhiteSpace_def)
  have "a \<noteq> []"
  proof
    assume "a = []"
    with t have "hd (trim v) = 0x20" by simp
    with trim_hd [OF ne] ws show False by simp
  qed
  with t have "hd a = hd (trim v)" and "hd a \<in> set a" by simp_all
  with trim_hd [OF ne] have "whitespace_tokens a \<noteq> []"
    by (intro whitespace_tokens_not_Nil [of "hd a"]) simp_all
  moreover have "b \<noteq> []"
  proof
    assume "b = []"
    with t have "last (trim v) = 0x20" by simp
    with trim_last [OF ne] ws show False by simp
  qed
  with t have "last b = last (trim v)" and "last b \<in> set b" by simp_all
  with trim_last [OF ne] have "whitespace_tokens b \<noteq> []"
    by (intro whitespace_tokens_not_Nil [of "last b"]) simp_all
  ultimately have "2 \<le> length (whitespace_tokens a @ whitespace_tokens b)"
    by (cases "whitespace_tokens a"; cases "whitespace_tokens b") simp_all
  with t ws show ?thesis by (simp add: whitespace_tokens_append)
qed

lemma candidate_examples:
  "isCandidate (Some (ascii ''Ali Hassan''))"
  "\<not> isCandidate (Some (ascii ''12345''))"
  "\<not> isCandidate (Some (ascii ''Ali''))"
  "\<not> isCandidate None"
  by (simp_all add: isCandidate_def isCandidateVal_def trim_def isWhiteSpace_def
      ascii_def split_space_def Number_isNaN_def isStrNumericLiteral_def
      isStrDecimalLiteral_def isStrUnsignedDecimalLiteral_def isNonDecimalIntegerLiteral_def
      isDigit_def)


lemma ex_sorted_distinct: "names_distinct ex_sorted"
  by (simp add: names_distinct_def all_attendees_def ex_sorted_def ascii_def)

lemma extractNamesFromExcel_set:
  "set (extractNamesFromExcel jsonData) =
     {val. \<exists>row \<in> set jsonData. \<exists>cell \<in> set row.
             isCandidate cell \<and> map_option trim cell = Some val}"
  by (auto simp: extractNamesFromExcel_def isCandidate_def split: option.splits if_splits)

lemma extractNamesFromExcel_distinct: "distinct (extractNamesFromExcel jsonData)"
  by (simp add: extractNamesFromExcel_def)

lemma extract_example:
  "extractNamesFromExcel
     [[Some (ascii ''Name''), Some (ascii ''Ali Hassan''), None],
      [Some (ascii '' Ali Hassan''), Some (ascii ''Omar Said''), Some (ascii ''123 456'')]]
   = [ascii ''Ali Hassan'', ascii ''Omar Said'', ascii ''123 456'']"
  by (simp add: extractNamesFromExcel_def isCandidateVal_def trim_def isWhiteSpace_def
      ascii_def split_space_def Number_isNaN_def isStrNumericLiteral_def
      isStrDecimalLiteral_def isStrUnsignedDecimalLiteral_def isNonDecimalIntegerLiteral_def
      isDigit_def isExponentPart_def)

text \<open>
  What the condition of line 50 selects, set against the wording of the specification:
  the cells that meet the four conditions and whose trimmed text contains a space U+0020.
\<close>

lemma isCandidate_iff:
  "isCandidate cell \<longleftrightarrow>
     spec_candidate cell \<and> (\<exists>v. cell = Some v \<and> 0x20 \<in> set (trim v))"
proof (cases cell)
  case None
  then show ?thesis by (simp add: isCandidate_def spec_candidate_def)
next
  case (Some v)
  have "isCandidate (Some v) \<longleftrightarrow>
      trim v \<noteq> [] \<and> 5 < length (trim v) \<and> 0x20 \<in> set (trim v) \<and> Number_isNaN (trim v)"
    by (simp add: isCandidate_def isCandidateVal_def split_space_two_fields)
  also have "\<dots> \<longleftrightarrow> spec_candidate (Some v) \<and> 0x20 \<in> set (trim v)"
    using space_gives_two_tokens [of v] by (auto simp: spec_candidate_def Let_def)
  finally show ?thesis using Some by simp
qed

section \<open>Claims\<close>



text \<open>
  C7. In a review session, rejecting the match at an index outside the present bucket
  (negative, or at least the length of the bucket) raises an error and leaves the whole
  state, the three buckets included, as it was.
\<close>

theorem rejectMatch_out_of_range:
  assumes "rawResults s = Some r" and "i < 0 \<or> int (length (present r)) \<le> i"
  shows "rejectMatch coll i s = (Some TypeError, s)"
  using assms by (auto simp: rejectMatch_def array_get_def)

theorem rejectMatch_out_of_range_witness:
  "rejectMatch length 1
     (initial_state\<lparr>rawResults := Some
        \<lparr>present = [\<lparr>name = ascii ''A'', status = PRESENT,
                     originalName = Some (ascii ''A-zoom'')\<rparr>],
         absent = [], unexpected = []\<rparr>, isReviewing := True\<rparr>)
   = (Some TypeError,
      initial_state\<lparr>rawResults := Some
        \<lparr>present = [\<lparr>name = ascii ''A'', status = PRESENT,
                     originalName = Some (ascii ''A-zoom'')\<rparr>],
         absent = [], unexpected = []\<rparr>, isReviewing := True\<rparr>)"
proof -
  let ?m = "\<lparr>name = ascii ''A'', status = PRESENT, originalName = Some (ascii ''A-zoom'')\<rparr>"
  let ?r = "\<lparr>present = [?m], absent = [], unexpected = []\<rparr>"
  let ?s = "initial_state\<lparr>rawResults := Some ?r, isReviewing := True\<rparr>"
  have h1: "rawResults ?s = Some ?r" by simp
  have h2: "(1::int) < 0 \<or> int (length (present ?r)) \<le> 1" by simp
  from rejectMatch_out_of_range [OF h1 h2, of length] show ?thesis .
qed

text \<open>
  C10. When the attendee at the rejected index has no \<open>originalName\<close> (the field is
  missing or is the empty string), rejecting the match raises no error and adds an
  attendee whose name is the empty string to the unexpected bucket.
\<close>

theorem rejectMatch_no_originalName:
  assumes "rawResults s = Some r" and "i < length (present r)"
    and "originalName (present r ! i) = None \<or> originalName (present r ! i) = Some []"
  shows "\<exists>r'. rejectMatch coll (int i) s = (None, s\<lparr>rawResults := Some r'\<rparr>) \<and>
           mset (unexpected r') = mset (unexpected r) +
             {#\<lparr>name = [], status = UNEXPECTED, originalName = None\<rparr>#}"
proof -
  let ?r' = "\<lparr>present = take i (present r) @ drop (Suc i) (present r),
              absent = sortFn coll (absent r @
                [\<lparr>name = name (present r ! i), status = ABSENT, originalName = None\<rparr>]),
              unexpected = sortFn coll (unexpected r @
                [\<lparr>name = or_empty (originalName (present r ! i)), status = UNEXPECTED,
                  originalName = None\<rparr>])\<rparr>"
  from assms(3) have "or_empty (originalName (present r ! i)) = []"
    by (auto simp: or_empty_def)
  with rejectMatch_Some [OF assms(1,2), of coll] show ?thesis
    by (intro exI [of _ ?r']) (simp add: mset_sortFn)
qed

theorem rejectMatch_no_originalName_witness:
  "\<exists>r'. rejectMatch length 0
       (initial_state\<lparr>rawResults := Some
          \<lparr>present = [\<lparr>name = ascii ''Ali Hassan'', status = PRESENT, originalName = None\<rparr>],
           absent = [], unexpected = []\<rparr>, isReviewing := True\<rparr>)
     = (None, initial_state\<lparr>rawResults := Some r', isReviewing := True\<rparr>) \<and>
     mset (unexpected r') = {#\<lparr>name = [], status = UNEXPECTED, originalName = None\<rparr>#}"
proof -
  let ?m = "\<lparr>name = ascii ''Ali Hassan'', status = PRESENT, originalName = None\<rparr>"
  let ?r = "\<lparr>present = [?m], absent = [], unexpected = []\<rparr>"
  let ?s = "initial_state\<lparr>rawResults := Some ?r, isReviewing := True\<rparr>"
  have h1: "rawResults ?s = Some ?r" by simp
  have h2: "0 < length (present ?r)" by simp
  have h3: "originalName (present ?r ! 0) = None \<or> originalName (present ?r ! 0) = Some []"
    by simp
  from rejectMatch_no_originalName [OF h1 h2 h3, of length] show ?thesis
    by (simp add: initial_state_def)
qed

text \<open>
  C6, as the code has it. Finalizing an active review session raises no error, copies
  the session's classification into the finalized classification and leaves review
  mode; the raw session is not discarded: it stays in the state as it was.
\<close>

theorem finalizeReport_keeps_raw:
  assumes "rawResults s = Some r"
  shows "finalizeReport s = (None, s\<lparr>finalResults := Some r, isReviewing := False\<rparr>) \<and>
         rawResults (snd (finalizeReport s)) = Some r \<and>
         finalResults (snd (finalizeReport s)) = Some r \<and>
         \<not> isReviewing (snd (finalizeReport s))"
  using assms by (simp add: finalizeReport_def)

theorem finalizeReport_keeps_raw_witness:
  "rawResults (snd (finalizeReport
     (initial_state\<lparr>rawResults := Some
        \<lparr>present = [], absent = [\<lparr>name = ascii ''C'', status = ABSENT, originalName = None\<rparr>],
         unexpected = []\<rparr>, isReviewing := True\<rparr>)))
   = Some \<lparr>present = [], absent = [\<lparr>name = ascii ''C'', status = ABSENT, originalName = None\<rparr>],
           unexpected = []\<rparr>"
proof -
  let ?r = "\<lparr>present = [], absent = [\<lparr>name = ascii ''C'', status = ABSENT, originalName = None\<rparr>],
             unexpected = []\<rparr>"
  let ?s = "initial_state\<lparr>rawResults := Some ?r, isReviewing := True\<rparr>"
  have h: "rawResults ?s = Some ?r" by simp
  from finalizeReport_keeps_raw [OF h] show ?thesis by blast
qed

text \<open>
  C6, as the specification states it, fails: after finalizing the session
  \<open>present = [{name: "A", originalName: "A-zoom"}]\<close> the raw session is still there.
\<close>

theorem finalizeReport_discards_raw_counterexample:
  "rawResults (snd (finalizeReport
     (initial_state\<lparr>rawResults := Some
        \<lparr>present = [\<lparr>name = ascii ''A'', status = PRESENT,
                     originalName = Some (ascii ''A-zoom'')\<rparr>],
         absent = [], unexpected = []\<rparr>, isReviewing := True\<rparr>))) \<noteq> None"
  by (simp add: finalizeReport_def)

text \<open>
  C8, as the code has it. Finalizing when there is no review session raises no error and
  changes nothing.
\<close>

theorem finalizeReport_no_session:
  assumes "rawResults s = None"
  shows "finalizeReport s = (None, s)"
  using assms by (simp add: finalizeReport_def)

theorem finalizeReport_no_session_witness:
  "finalizeReport (initial_state\<lparr>selectedNames := {ascii ''A''}\<rparr>)
     = (None, initial_state\<lparr>selectedNames := {ascii ''A''}\<rparr>)"
proof -
  have h: "rawResults (initial_state\<lparr>selectedNames := {ascii ''A''}\<rparr>) = None"
    by (simp add: initial_state_def)
  from finalizeReport_no_session [OF h] show ?thesis .
qed

text \<open>
  C8, as the specification states it, fails: in the initial state there is no review
  session, and finalizing raises no error.
\<close>

theorem finalizeReport_error_counterexample:
  "rawResults initial_state = None \<and> fst (finalizeReport initial_state) = None"
  by (simp add: finalizeReport_def initial_state_def)

text \<open>
  C3. With a finalized classification and a staged target status, confirming the bulk
  change raises no error; afterwards the attendees whose name is selected are found in
  the bucket of the target status only, and they are exactly the selected attendees of
  the three old buckets with the status field overwritten; every bucket is in collation
  order; the selection is empty (and the staged request is gone).
\<close>

theorem handleBulkStatusChange_moves_selected:
  assumes "finalResults s = Some r" and "pendingStatus s = Some st"
  shows "\<exists>r'. handleBulkStatusChange coll s =
            (None, s\<lparr>finalResults := Some r', selectedNames := {},
                     showBulkConfirm := False, pendingStatus := None\<rparr>) \<and>
          (\<forall>t. mset (filter (\<lambda>a. name a \<in> selectedNames s) (bucket t r')) =
               (if t = st
                then mset (map (\<lambda>m. m\<lparr>status := st\<rparr>)
                       (filter (\<lambda>a. name a \<in> selectedNames s) (all_attendees r)))
                else {#})) \<and>
          buckets_sorted coll r'"
proof -
  let ?xs = "redistributed (selectedNames s) st r"
  let ?sel = "\<lambda>a. name a \<in> selectedNames s"
  let ?r' = "\<lparr>present = sortFn coll (filter (\<lambda>a. status a = PRESENT) ?xs),
              absent = sortFn coll (filter (\<lambda>a. status a = ABSENT) ?xs),
              unexpected = sortFn coll (filter (\<lambda>a. status a = UNEXPECTED) ?xs)\<rparr>"
  have run: "handleBulkStatusChange coll s =
      (None, s\<lparr>finalResults := Some ?r', selectedNames := {},
               showBulkConfirm := False, pendingStatus := None\<rparr>)"
    using assms by (rule handleBulkStatusChange_Some)
  have moved: "mset (filter ?sel (bucket t ?r')) =
      (if t = st then mset (map (\<lambda>m. m\<lparr>status := st\<rparr>) (filter ?sel (all_attendees r)))
       else {#})" for t
  proof -
    have "mset (filter ?sel (bucket t ?r')) = mset (filter ?sel (filter (\<lambda>a. status a = t) ?xs))"
      by (simp only: mset_filter bucket_after_bulk)
    also have "filter ?sel (filter (\<lambda>a. status a = t) ?xs) =
        (if t = st then map (\<lambda>m. m\<lparr>status := st\<rparr>) (filter ?sel (all_attendees r)) else [])"
      unfolding redistributed_def by (rule selected_in_bucket)
    finally show ?thesis by (simp split: if_splits)
  qed
  have sorted: "buckets_sorted coll ?r'"
    by (simp add: buckets_sorted_def bucket_sorted_sortFn)
  from run moved sorted show ?thesis
    by (intro exI [of _ ?r']) blast
qed

theorem handleBulkStatusChange_moves_selected_witness:
  "finalResults ex_staged = Some ex_sorted \<and> pendingStatus ex_staged = Some ABSENT \<and>
   (\<exists>r'. handleBulkStatusChange by_code_units ex_staged =
            (None, ex_staged\<lparr>finalResults := Some r', selectedNames := {},
                     showBulkConfirm := False, pendingStatus := None\<rparr>) \<and>
          (\<forall>t. mset (filter (\<lambda>a. name a \<in> selectedNames ex_staged) (bucket t r')) =
               (if t = ABSENT
                then mset (map (\<lambda>m. m\<lparr>status := ABSENT\<rparr>)
                       (filter (\<lambda>a. name a \<in> selectedNames ex_staged) (all_attendees ex_sorted)))
                else {#})) \<and>
          buckets_sorted by_code_units r')"
proof -
  have h1: "finalResults ex_staged = Some ex_sorted" by (simp add: ex_staged_eq)
  have h2: "pendingStatus ex_staged = Some ABSENT" by (simp add: ex_staged_eq)
  from h1 h2 handleBulkStatusChange_moves_selected [OF h1 h2, of by_code_units]
  show ?thesis by (intro conjI)
qed

text \<open>
  C9. A confirmed bulk change keeps every attendee whose name is not selected exactly as
  it was (name, originalName and status), keeps the name and originalName of every
  attendee, and keeps the total number of attendees in the three buckets.
\<close>

theorem handleBulkStatusChange_frame:
  assumes "finalResults s = Some r" and "pendingStatus s = Some st"
  shows "\<exists>r'. finalResults (snd (handleBulkStatusChange coll s)) = Some r' \<and>
          mset (filter (\<lambda>a. name a \<notin> selectedNames s) (all_attendees r')) =
            mset (filter (\<lambda>a. name a \<notin> selectedNames s) (all_attendees r)) \<and>
          mset (map (\<lambda>a. (name a, originalName a)) (all_attendees r')) =
            mset (map (\<lambda>a. (name a, originalName a)) (all_attendees r)) \<and>
          length (present r') + length (absent r') + length (unexpected r') =
            length (present r) + length (absent r) + length (unexpected r)"
proof -
  let ?xs = "redistributed (selectedNames s) st r"
  let ?unsel = "\<lambda>a. name a \<notin> selectedNames s"
  let ?r' = "\<lparr>present = sortFn coll (filter (\<lambda>a. status a = PRESENT) ?xs),
              absent = sortFn coll (filter (\<lambda>a. status a = ABSENT) ?xs),
              unexpected = sortFn coll (filter (\<lambda>a. status a = UNEXPECTED) ?xs)\<rparr>"
  have run: "finalResults (snd (handleBulkStatusChange coll s)) = Some ?r'"
    using handleBulkStatusChange_Some [OF assms, of coll] by simp
  have all: "mset (all_attendees ?r') = mset ?xs"
    by (rule mset_all_attendees_sorted)
  have "mset (filter ?unsel (all_attendees ?r')) = mset (filter ?unsel ?xs)"
    using all by (simp only: mset_filter)
  also have "filter ?unsel ?xs = filter ?unsel (all_attendees r)"
    unfolding redistributed_def by (rule unselected_kept)
  finally have kept: "mset (filter ?unsel (all_attendees ?r')) =
      mset (filter ?unsel (all_attendees r))" .
  have "mset (map (\<lambda>a. (name a, originalName a)) (all_attendees ?r')) =
      mset (map (\<lambda>a. (name a, originalName a)) ?xs)"
    using all by (simp only: mset_map)
  also have "\<dots> = mset (map (\<lambda>a. (name a, originalName a)) (all_attendees r))"
    by (rule redistributed_names)
  finally have names: "mset (map (\<lambda>a. (name a, originalName a)) (all_attendees ?r')) =
      mset (map (\<lambda>a. (name a, originalName a)) (all_attendees r))" .
  have "length (all_attendees ?r') = length ?xs"
    using all by (rule mset_eq_length)
  then have len: "length (present ?r') + length (absent ?r') + length (unexpected ?r') =
      length (present r) + length (absent r) + length (unexpected r)"
    using length_redistributed [of "selectedNames s" st r] by (simp add: all_attendees_def)
  from run kept names len show ?thesis
    by (intro exI [of _ ?r']) blast
qed

theorem handleBulkStatusChange_frame_witness:
  "finalResults ex_staged = Some ex_sorted \<and> pendingStatus ex_staged = Some ABSENT \<and>
   (\<exists>r'. finalResults (snd (handleBulkStatusChange by_code_units ex_staged)) = Some r' \<and>
          mset (filter (\<lambda>a. name a \<notin> selectedNames ex_staged) (all_attendees r')) =
            mset (filter (\<lambda>a. name a \<notin> selectedNames ex_staged) (all_attendees ex_sorted)) \<and>
          mset (map (\<lambda>a. (name a, originalName a)) (all_attendees r')) =
            mset (map (\<lambda>a. (name a, originalName a)) (all_attendees ex_sorted)) \<and>
          length (present r') + length (absent r') + length (unexpected r') =
            length (present ex_sorted) + length (absent ex_sorted) + length (unexpected ex_sorted))"
proof -
  have h1: "finalResults ex_staged = Some ex_sorted" by (simp add: ex_staged_eq)
  have h2: "pendingStatus ex_staged = Some ABSENT" by (simp add: ex_staged_eq)
  from h1 h2 handleBulkStatusChange_frame [OF h1 h2, of by_code_units]
  show ?thesis by (intro conjI)
qed

text \<open>
  C5. In every state the component can reach, the three buckets of the raw result and of
  the finalized result are in collation order: this holds after the ingest of a result,
  after \<open>rejectMatch\<close> and after a bulk change. Sorting a bucket that is in collation
  order returns it unchanged, and sorting twice is sorting once.
\<close>

theorem buckets_stay_sorted:
  assumes "reachable coll s"
  shows "results_sorted coll (rawResults s) \<and> results_sorted coll (finalResults s) \<and>
         (\<forall>xs. bucket_sorted coll xs \<longrightarrow> sortFn coll xs = xs) \<and>
         (\<forall>xs. sortFn coll (sortFn coll xs) = sortFn coll xs)"
proof -
  have id: "sortFn coll xs = xs" if "bucket_sorted coll xs" for xs
    using that by (simp add: bucket_sorted_def sortFn_def sort_key_id_if_sorted)
  have "sortFn coll (sortFn coll xs) = sortFn coll xs" for xs
    by (rule id) (rule bucket_sorted_sortFn)
  with id reachable_sorted [OF assms] show ?thesis by blast
qed

theorem buckets_stay_sorted_witness:
  "reachable by_code_units (snd (handleBulkStatusChange by_code_units ex_staged)) \<and>
   bucket_sorted by_code_units (present ex_sorted) \<and>
   results_sorted by_code_units (rawResults (snd (handleBulkStatusChange by_code_units ex_staged))) \<and>
   results_sorted by_code_units (finalResults (snd (handleBulkStatusChange by_code_units ex_staged))) \<and>
   sortFn by_code_units (present ex_sorted) = present ex_sorted \<and>
   sortFn by_code_units (sortFn by_code_units (present ex_oracle)) =
     sortFn by_code_units (present ex_oracle)"
proof -
  have h1: "reachable by_code_units (snd (handleBulkStatusChange by_code_units ex_staged))"
    using ex_staged_reachable by (rule reachable.bulk)
  have h2: "bucket_sorted by_code_units (present ex_sorted)"
    by (simp add: bucket_sorted_def ex_sorted_def by_code_units_def ascii_def)
  from h1 h2 buckets_stay_sorted [OF h1] show ?thesis by blast
qed

text \<open>
  C4, as the code has it. The names in the three buckets stay pairwise distinct under
  the ingest of a result whose names are pairwise distinct, under a confirmed bulk change
  of a classification whose names are pairwise distinct, and under \<open>rejectMatch\<close> at an
  index inside the present bucket when the names were pairwise distinct and the
  \<open>originalName\<close> of the rejected attendee (the empty string when it is missing) is not
  yet a name in any bucket.
\<close>

theorem names_distinct_preserved:
  "(names_distinct res \<longrightarrow>
      (\<exists>r'. rawResults (runAnalysis_ingest coll res s1) = Some r' \<and> names_distinct r')) \<and>
   (finalResults s2 = Some r2 \<and> pendingStatus s2 = Some st \<and> names_distinct r2 \<longrightarrow>
      (\<exists>r'. finalResults (snd (handleBulkStatusChange coll s2)) = Some r' \<and> names_distinct r')) \<and>
   (rawResults s3 = Some r3 \<and> i < length (present r3) \<and> names_distinct r3 \<and>
    or_empty (originalName (present r3 ! i)) \<notin> set (map name (all_attendees r3)) \<longrightarrow>
      (\<exists>r'. rawResults (snd (rejectMatch coll (int i) s3)) = Some r' \<and> names_distinct r'))"
proof (intro conjI impI)
  assume "names_distinct res"
  then have "distinct (map name (present res @ absent res @ unexpected res))"
    by (simp add: names_distinct_def all_attendees_def)
  then have "names_distinct \<lparr>present = sortFn coll (present res),
      absent = sortFn coll (absent res), unexpected = sortFn coll (unexpected res)\<rparr>"
    unfolding names_distinct_def
    using mset_eq_imp_distinct_iff [OF names_after_ingest] by blast
  then show "\<exists>r'. rawResults (runAnalysis_ingest coll res s1) = Some r' \<and> names_distinct r'"
    by (simp add: runAnalysis_ingest_def)
next
  assume a: "finalResults s2 = Some r2 \<and> pendingStatus s2 = Some st \<and> names_distinct r2"
  then have f: "finalResults s2 = Some r2" and p: "pendingStatus s2 = Some st"
    and d: "distinct (map name (all_attendees r2))"
    by (simp_all add: names_distinct_def)
  from d have "names_distinct
     \<lparr>present = sortFn coll (filter (\<lambda>a. status a = PRESENT) (redistributed (selectedNames s2) st r2)),
      absent = sortFn coll (filter (\<lambda>a. status a = ABSENT) (redistributed (selectedNames s2) st r2)),
      unexpected = sortFn coll (filter (\<lambda>a. status a = UNEXPECTED) (redistributed (selectedNames s2) st r2))\<rparr>"
    unfolding names_distinct_def
    using mset_eq_imp_distinct_iff [OF names_after_bulk] by blast
  then show "\<exists>r'. finalResults (snd (handleBulkStatusChange coll s2)) = Some r' \<and> names_distinct r'"
    using handleBulkStatusChange_Some [OF f p, of coll] by simp
next
  assume a: "rawResults s3 = Some r3 \<and> i < length (present r3) \<and> names_distinct r3 \<and>
    or_empty (originalName (present r3 ! i)) \<notin> set (map name (all_attendees r3))"
  then have raw: "rawResults s3 = Some r3" and i: "i < length (present r3)"
    and d: "distinct (or_empty (originalName (present r3 ! i)) # map name (all_attendees r3))"
    by (simp_all add: names_distinct_def)
  from d have "names_distinct
     \<lparr>present = take i (present r3) @ drop (Suc i) (present r3),
      absent = sortFn coll (absent r3 @
        [\<lparr>name = name (present r3 ! i), status = ABSENT, originalName = None\<rparr>]),
      unexpected = sortFn coll (unexpected r3 @
        [\<lparr>name = or_empty (originalName (present r3 ! i)), status = UNEXPECTED,
          originalName = None\<rparr>])\<rparr>"
    unfolding names_distinct_def
    using mset_eq_imp_distinct_iff [OF names_after_reject [OF i]] by blast
  then show "\<exists>r'. rawResults (snd (rejectMatch coll (int i) s3)) = Some r' \<and> names_distinct r'"
    using rejectMatch_Some [OF raw i, of coll] by simp
qed

theorem names_distinct_preserved_witness:
  "names_distinct ex_oracle \<and>
   (\<exists>r'. rawResults (runAnalysis_ingest by_code_units ex_oracle initial_state) = Some r' \<and>
      names_distinct r') \<and>
   finalResults ex_staged = Some ex_sorted \<and> pendingStatus ex_staged = Some ABSENT \<and>
   names_distinct ex_sorted \<and>
   (\<exists>r'. finalResults (snd (handleBulkStatusChange by_code_units ex_staged)) = Some r' \<and>
      names_distinct r') \<and>
   rawResults ex_review = Some ex_sorted \<and> 0 < length (present ex_sorted) \<and>
   or_empty (originalName (present ex_sorted ! 0)) \<notin> set (map name (all_attendees ex_sorted)) \<and>
   (\<exists>r'. rawResults (snd (rejectMatch by_code_units (int 0) ex_review)) = Some r' \<and>
      names_distinct r')"
proof -
  have h1: "names_distinct ex_oracle"
    by (simp add: names_distinct_def all_attendees_def ex_oracle_def ascii_def)
  have h2: "finalResults ex_staged = Some ex_sorted \<and> pendingStatus ex_staged = Some ABSENT \<and>
      names_distinct ex_sorted"
    by (simp add: ex_staged_eq ex_sorted_distinct)
  have h3: "rawResults ex_review = Some ex_sorted \<and> 0 < length (present ex_sorted) \<and>
      names_distinct ex_sorted \<and>
      or_empty (originalName (present ex_sorted ! 0)) \<notin> set (map name (all_attendees ex_sorted))"
    by (simp add: ex_review_eq ex_sorted_distinct)
       (simp add: ex_sorted_def or_empty_def all_attendees_def ascii_def)
  from h1 h2 h3
    names_distinct_preserved [of ex_oracle by_code_units initial_state ex_staged ex_sorted ABSENT
      ex_review ex_sorted 0]
  show ?thesis by blast
qed

text \<open>
  C4, as the specification states it, fails: the session holds the single match of
  "Ali Hassan" with the identical observed name, its names are pairwise distinct, and
  after \<open>rejectMatch(0)\<close> the name is both in the absent and in the unexpected bucket.
\<close>

theorem names_distinct_counterexample:
  "names_distinct ex_same \<and>
   rawResults (snd (rejectMatch by_code_units 0
      (runAnalysis_ingest by_code_units ex_same initial_state))) =
     Some \<lparr>present = [],
           absent = [\<lparr>name = ascii ''Ali Hassan'', status = ABSENT, originalName = None\<rparr>],
           unexpected = [\<lparr>name = ascii ''Ali Hassan'', status = UNEXPECTED,
                          originalName = None\<rparr>]\<rparr> \<and>
   \<not> names_distinct
     \<lparr>present = [],
      absent = [\<lparr>name = ascii ''Ali Hassan'', status = ABSENT, originalName = None\<rparr>],
      unexpected = [\<lparr>name = ascii ''Ali Hassan'', status = UNEXPECTED, originalName = None\<rparr>]\<rparr>"
  by (simp add: names_distinct_def all_attendees_def ex_same_def rejectMatch_def
      runAnalysis_ingest_def array_get_def filter_index_def or_empty_def sortFn_def
      initial_state_def)

text \<open>
  C2. The comment on the condition (line 49) asks for a name of more than 5 characters
  and of at least two words that is not a number, and so does the specification. A cell
  that holds the two words Ali and Hassan with a line break between them meets the four
  conditions of the specification: trimmed it is not empty, it has 10 code units, it has
  two tokens separated by white space, and it is not a number. The code does not select
  it, because \<open>split(' ')\<close> separates at U+0020 only and finds a single field, and the
  extractor returns no name for a sheet that holds this cell.
\<close>

theorem isCandidate_line_break_dropped:
  "spec_candidate (Some (ascii ''Ali'' @ [0x0A] @ ascii ''Hassan'')) \<and>
   length (split_space (trim (ascii ''Ali'' @ [0x0A] @ ascii ''Hassan''))) = 1 \<and>
   \<not> isCandidate (Some (ascii ''Ali'' @ [0x0A] @ ascii ''Hassan'')) \<and>
   extractNamesFromExcel [[Some (ascii ''Ali'' @ [0x0A] @ ascii ''Hassan'')]] = []"
  by (simp add: spec_candidate_def isCandidate_def isCandidateVal_def extractNamesFromExcel_def
      trim_def isWhiteSpace_def ascii_def split_space_def whitespace_tokens_def Number_isNaN_def
      isStrNumericLiteral_def isStrDecimalLiteral_def isStrUnsignedDecimalLiteral_def
      isNonDecimalIntegerLiteral_def isDigit_def)

end
